theory Spec2Isabelle
  imports Main
begin

section \<open>JSON documents and the Python operations used on them\<close>

text \<open>
  A timeline is stored in a JSON column. Loaded into Python, a JSON value is \<open>None\<close>, a
  \<open>bool\<close>, an \<open>int\<close> (unbounded), a \<open>float\<close>, a \<open>str\<close>, a \<open>list\<close> or a \<open>dict\<close> with
  \<open>str\<close> keys. A dict keeps its keys in insertion order, so it is an association list;
  a float is kept as mantissa and binary exponent, and nothing below looks inside one.
\<close>

datatype json =
    JNull
  | JBool bool
  | JInt int
  | JFloat int int
  | JStr string
  | JList "json list"
  | JDict "(string \<times> json) list"

datatype py_error = KeyError string | TypeError | ValueError

text \<open>\<open>type(v) is int\<close> and \<open>type(v) is str\<close>. A \<open>bool\<close> is not of type \<open>int\<close>.\<close>

fun is_int :: "json \<Rightarrow> bool" where
  "is_int (JInt _) = True"
| "is_int _ = False"

fun is_str :: "json \<Rightarrow> bool" where
  "is_str (JStr _) = True"
| "is_str _ = False"

text \<open>\<open>d[k] = v\<close> on a dict: an existing key keeps its place, a new key goes last.\<close>

primrec dict_set :: "string \<Rightarrow> json \<Rightarrow> (string \<times> json) list \<Rightarrow> (string \<times> json) list" where
  "dict_set k v [] = [(k, v)]"
| "dict_set k v (p # ps) = (if fst p = k then (k, v) # ps else p # dict_set k v ps)"

text \<open>\<open>needle in haystack\<close> on two strings: the substring test.\<close>

primrec str_contains :: "string \<Rightarrow> string \<Rightarrow> bool" where
  "str_contains k [] = (k = [])"
| "str_contains k (c # s) = (take (length k) (c # s) = k \<or> str_contains k s)"

text \<open>
  \<open>obj[k]\<close> with a string key \<open>k\<close>: a dict looks the key up and raises \<open>KeyError\<close> when it
  is absent; a list or a string wants an integer index, and the other values cannot be
  subscripted: \<open>TypeError\<close>.
\<close>

definition getitem :: "json \<Rightarrow> string \<Rightarrow> py_error + json" where
  "getitem obj k =
     (case obj of
        JDict d \<Rightarrow> (case map_of d k of None \<Rightarrow> Inl (KeyError k) | Some v \<Rightarrow> Inr v)
      | _ \<Rightarrow> Inl TypeError)"

text \<open>\<open>obj[k] = v\<close> with a string key: only a dict accepts it.\<close>

definition setitem :: "json \<Rightarrow> string \<Rightarrow> json \<Rightarrow> py_error + json" where
  "setitem obj k v =
     (case obj of
        JDict d \<Rightarrow> Inr (JDict (dict_set k v d))
      | _ \<Rightarrow> Inl TypeError)"

text \<open>
  \<open>k in obj\<close> with a string \<open>k\<close>: key membership on a dict, element membership on a list,
  the substring test on a string, \<open>TypeError\<close> on a value that is not iterable.
\<close>

definition contains :: "string \<Rightarrow> json \<Rightarrow> py_error + bool" where
  "contains k obj =
     (case obj of
        JDict d \<Rightarrow> Inr (k \<in> set (map fst d))
      | JList xs \<Rightarrow> Inr (JStr k \<in> set xs)
      | JStr s \<Rightarrow> Inr (str_contains k s)
      | _ \<Rightarrow> Inl TypeError)"

text \<open>
  \<open>for x in obj\<close>: a list yields its elements, a dict its keys, a string its characters
  (each a string of length one); the other values are not iterable.
\<close>

definition py_iter :: "json \<Rightarrow> py_error + json list" where
  "py_iter obj =
     (case obj of
        JList xs \<Rightarrow> Inr xs
      | JDict d \<Rightarrow> Inr (map (\<lambda>p. JStr (fst p)) d)
      | JStr s \<Rightarrow> Inr (map (\<lambda>c. JStr [c]) s)
      | _ \<Rightarrow> Inl TypeError)"

text \<open>
  A \<open>for\<close> loop whose body may replace the element it visits and may raise. The first
  exception ends the loop. The variant with a state threads the number of identifiers
  drawn so far.
\<close>

fun for_each :: "(json \<Rightarrow> py_error + json) \<Rightarrow> json list \<Rightarrow> py_error + json list" where
  "for_each f [] = Inr []"
| "for_each f (x # xs) =
     (case f x of
        Inl e \<Rightarrow> Inl e
      | Inr x' \<Rightarrow> (case for_each f xs of Inl e \<Rightarrow> Inl e | Inr xs' \<Rightarrow> Inr (x' # xs')))"

fun for_each_st ::
  "(nat \<Rightarrow> json \<Rightarrow> py_error + json \<times> nat) \<Rightarrow> nat \<Rightarrow> json list \<Rightarrow> py_error + json list \<times> nat"
where
  "for_each_st f n [] = Inr ([], n)"
| "for_each_st f n (x # xs) =
     (case f n x of
        Inl e \<Rightarrow> Inl e
      | Inr (x', n') \<Rightarrow>
          (case for_each_st f n' xs of
             Inl e \<Rightarrow> Inl e
           | Inr (xs', n'') \<Rightarrow> Inr (x' # xs', n'')))"

text \<open>
  The loop over a container found inside the document. The elements of a list are the
  objects themselves, so what the body does to them stays in the list; the keys of a
  dict and the characters of a string are strings, which no assignment can change, so
  such a container is left as it is when the loop gets through.
\<close>

definition for_objects :: "(json \<Rightarrow> py_error + json) \<Rightarrow> json \<Rightarrow> py_error + json" where
  "for_objects f c =
     (case py_iter c of
        Inl e \<Rightarrow> Inl e
      | Inr xs \<Rightarrow>
          (case for_each f xs of
             Inl e \<Rightarrow> Inl e
           | Inr xs' \<Rightarrow> Inr (case c of JList _ \<Rightarrow> JList xs' | _ \<Rightarrow> c)))"

definition for_objects_st ::
  "(nat \<Rightarrow> json \<Rightarrow> py_error + json \<times> nat) \<Rightarrow> nat \<Rightarrow> json \<Rightarrow> py_error + json \<times> nat"
where
  "for_objects_st f n c =
     (case py_iter c of
        Inl e \<Rightarrow> Inl e
      | Inr xs \<Rightarrow>
          (case for_each_st f n xs of
             Inl e \<Rightarrow> Inl e
           | Inr (xs', n') \<Rightarrow> Inr (case c of JList _ \<Rightarrow> JList xs' | _ \<Rightarrow> c, n')))"

section \<open>Migration 0007: string identifiers and categories\<close>

text \<open>
  \<open>get_short_uuid\<close> is imported from \<open>labs.models\<close>; each call returns a new string. The
  model takes the sequence of strings it returns as the parameter \<open>uuid\<close> and counts the
  calls made so far.

  The body of the first loop of \<open>change_ids\<close>, shared by events and cases:
  \<^verbatim>\<open>if type(event['id']) is int: event['id'] = get_short_uuid()\<close>.
\<close>

definition change_id :: "(nat \<Rightarrow> string) \<Rightarrow> nat \<Rightarrow> json \<Rightarrow> py_error + json \<times> nat" where
  "change_id uuid n obj =
     (case getitem obj ''id'' of
        Inl e \<Rightarrow> Inl e
      | Inr v \<Rightarrow>
          (if is_int v then
             (case setitem obj ''id'' (JStr (uuid n)) of
                Inl e \<Rightarrow> Inl e
              | Inr obj' \<Rightarrow> Inr (obj', Suc n))
           else Inr (obj, n)))"

text \<open>
  The body of the loop over categories:
  \<^verbatim>\<open>if ('id' in cat and type(cat['id']) is int) or ('id' not in cat): cat['id'] = get_short_uuid()\<close>.
\<close>

definition change_cat_id :: "(nat \<Rightarrow> string) \<Rightarrow> nat \<Rightarrow> json \<Rightarrow> py_error + json \<times> nat" where
  "change_cat_id uuid n cat =
     (case contains ''id'' cat of
        Inl e \<Rightarrow> Inl e
      | Inr has_id \<Rightarrow>
          (if has_id then
             (case getitem cat ''id'' of
                Inl e \<Rightarrow> Inl e
              | Inr v \<Rightarrow>
                  (if is_int v then
                     (case setitem cat ''id'' (JStr (uuid n)) of
                        Inl e \<Rightarrow> Inl e
                      | Inr cat' \<Rightarrow> Inr (cat', Suc n))
                   else Inr (cat, n)))
           else
             (case setitem cat ''id'' (JStr (uuid n)) of
                Inl e \<Rightarrow> Inl e
              | Inr cat' \<Rightarrow> Inr (cat', Suc n))))"

text \<open>
  \<^verbatim>\<open>for obj in doc[k]: body\<close> on the document \<open>doc\<close>. The container \<open>doc[k]\<close> is changed
  in place, which the model writes as storing the new container under the key it was
  read from.
\<close>

definition loop_over_st ::
  "(nat \<Rightarrow> json \<Rightarrow> py_error + json \<times> nat) \<Rightarrow> nat \<Rightarrow> json \<Rightarrow> string \<Rightarrow> py_error + json \<times> nat"
where
  "loop_over_st f n doc k =
     (case getitem doc k of
        Inl e \<Rightarrow> Inl e
      | Inr c \<Rightarrow>
          (case for_objects_st f n c of
             Inl e \<Rightarrow> Inl e
           | Inr (c', n') \<Rightarrow>
               (case setitem doc k c' of
                  Inl e \<Rightarrow> Inl e
                | Inr doc' \<Rightarrow> Inr (doc', n'))))"

definition loop_over :: "(json \<Rightarrow> py_error + json) \<Rightarrow> json \<Rightarrow> string \<Rightarrow> py_error + json" where
  "loop_over f doc k =
     (case getitem doc k of
        Inl e \<Rightarrow> Inl e
      | Inr c \<Rightarrow>
          (case for_objects f c of
             Inl e \<Rightarrow> Inl e
           | Inr c' \<Rightarrow> setitem doc k c'))"

text \<open>
  One round of the loop over the stored timelines in \<open>change_ids\<close>, on the document
  \<open>timeline.timeline\<close>: the events, the cases, and the categories when the document has
  the key.
\<close>

definition change_ids_timeline ::
  "(nat \<Rightarrow> string) \<Rightarrow> nat \<Rightarrow> json \<Rightarrow> py_error + json \<times> nat"
where
  "change_ids_timeline uuid n doc =
     (case loop_over_st (change_id uuid) n doc ''events'' of
        Inl e \<Rightarrow> Inl e
      | Inr (doc1, n1) \<Rightarrow>
     (case loop_over_st (change_id uuid) n1 doc1 ''cases'' of
        Inl e \<Rightarrow> Inl e
      | Inr (doc2, n2) \<Rightarrow>
     (case contains ''categories'' doc2 of
        Inl e \<Rightarrow> Inl e
      | Inr has_categories \<Rightarrow>
          (if has_categories then loop_over_st (change_cat_id uuid) n2 doc2 ''categories''
           else Inr (doc2, n2)))))"

text \<open>
  \<open>change_ids\<close>: the loop over \<open>Timeline.objects.all()\<close>, the table given as the list of
  its documents. An exception leaves the migration unapplied.
\<close>

definition change_ids :: "(nat \<Rightarrow> string) \<Rightarrow> nat \<Rightarrow> json list \<Rightarrow> py_error + json list \<times> nat" where
  "change_ids uuid n timelines = for_each_st (change_ids_timeline uuid) n timelines"

text \<open>
  The body of the loops of \<open>add_categories\<close>:
  \<^verbatim>\<open>if 'categories' not in event: event['categories'] = []\<close>.
\<close>

definition add_categories_obj :: "json \<Rightarrow> py_error + json" where
  "add_categories_obj obj =
     (case contains ''categories'' obj of
        Inl e \<Rightarrow> Inl e
      | Inr True \<Rightarrow> Inr obj
      | Inr False \<Rightarrow> setitem obj ''categories'' (JList []))"

definition add_categories_timeline :: "json \<Rightarrow> py_error + json" where
  "add_categories_timeline doc =
     (case loop_over add_categories_obj doc ''events'' of
        Inl e \<Rightarrow> Inl e
      | Inr doc1 \<Rightarrow>
     (case loop_over add_categories_obj doc1 ''cases'' of
        Inl e \<Rightarrow> Inl e
      | Inr doc2 \<Rightarrow> add_categories_obj doc2))"

definition add_categories :: "json list \<Rightarrow> py_error + json list" where
  "add_categories timelines = for_each add_categories_timeline timelines"

text \<open>The forward migration runs \<open>change_ids\<close> and then \<open>add_categories\<close>.\<close>

definition migration_0007 ::
  "(nat \<Rightarrow> string) \<Rightarrow> nat \<Rightarrow> json list \<Rightarrow> py_error + json list \<times> nat"
where
  "migration_0007 uuid n timelines =
     (case change_ids uuid n timelines of
        Inl e \<Rightarrow> Inl e
      | Inr (timelines1, n1) \<Rightarrow>
          (case add_categories timelines1 of
             Inl e \<Rightarrow> Inl e
           | Inr timelines2 \<Rightarrow> Inr (timelines2, n1)))"

subsection \<open>What the migration is to establish\<close>

text \<open>
  The objects of a document under a key are the elements of the list stored there. An
  object has a string-valued id when it is a dict whose \<open>'id'\<close> is a \<open>str\<close>. A document is
  normalized when every event and every case has a string-valued id and a
  \<open>'categories'\<close> key, every category has a string-valued id, and the document itself
  has the \<open>'categories'\<close> key.

  \<open>id_typed\<close> says of an object that its \<open>'id'\<close>, where it has one, is an \<open>int\<close> or a
  \<open>str\<close>: the two types the migration tells apart. \<open>settled\<close> describes a container the
  loops of \<open>change_ids\<close> got through: a list of objects with string-valued ids, or an
  empty dict or string, over which the loop body never ran.
\<close>

definition elems :: "json \<Rightarrow> json list" where
  "elems c = (case c of JList xs \<Rightarrow> xs | _ \<Rightarrow> [])"

definition objects_of :: "json \<Rightarrow> string \<Rightarrow> json list" where
  "objects_of doc k = (case getitem doc k of Inr c \<Rightarrow> elems c | Inl _ \<Rightarrow> [])"

definition has_str_id :: "json \<Rightarrow> bool" where
  "has_str_id obj = (case getitem obj ''id'' of Inr v \<Rightarrow> is_str v | Inl _ \<Rightarrow> False)"

definition has_key :: "string \<Rightarrow> json \<Rightarrow> bool" where
  "has_key k obj = (case obj of JDict d \<Rightarrow> k \<in> set (map fst d) | _ \<Rightarrow> False)"

definition id_typed :: "json \<Rightarrow> bool" where
  "id_typed obj = (case getitem obj ''id'' of Inr v \<Rightarrow> is_int v \<or> is_str v | Inl _ \<Rightarrow> True)"

definition ids_typed :: "json \<Rightarrow> bool" where
  "ids_typed doc =
     list_all id_typed
       (objects_of doc ''events'' @ objects_of doc ''cases'' @ objects_of doc ''categories'')"

definition normalized :: "json \<Rightarrow> bool" where
  "normalized doc \<longleftrightarrow>
     list_all (\<lambda>e. has_str_id e \<and> has_key ''categories'' e) (objects_of doc ''events'') \<and>
     list_all (\<lambda>c. has_str_id c \<and> has_key ''categories'' c) (objects_of doc ''cases'') \<and>
     list_all has_str_id (objects_of doc ''categories'') \<and>
     has_key ''categories'' doc"

definition settled :: "json \<Rightarrow> bool" where
  "settled c =
     (case c of
        JList xs \<Rightarrow> list_all has_str_id xs
      | JDict d \<Rightarrow> d = []
      | JStr s \<Rightarrow> s = []
      | _ \<Rightarrow> False)"

text \<open>
  A well-formed timeline: \<open>'events'\<close> and \<open>'cases'\<close> are lists of objects, each with an
  \<open>'id'\<close> that is an \<open>int\<close> or a \<open>str\<close>, and \<open>'categories'\<close>, where the document has it,
  is a list of objects whose \<open>'id'\<close>, if any, is an \<open>int\<close> or a \<open>str\<close>. On such timelines
  the migration raises no exception.
\<close>

definition is_dict :: "json \<Rightarrow> bool" where
  "is_dict obj = (case obj of JDict _ \<Rightarrow> True | _ \<Rightarrow> False)"

definition has_int_or_str_id :: "json \<Rightarrow> bool" where
  "has_int_or_str_id obj = (case getitem obj ''id'' of Inr v \<Rightarrow> is_int v \<or> is_str v | Inl _ \<Rightarrow> False)"

definition object_list :: "(json \<Rightarrow> bool) \<Rightarrow> json \<Rightarrow> bool" where
  "object_list P c = (case c of JList xs \<Rightarrow> list_all P xs | _ \<Rightarrow> False)"

definition well_formed :: "json \<Rightarrow> bool" where
  "well_formed doc =
     (case getitem doc ''events'' of
        Inl _ \<Rightarrow> False
      | Inr events \<Rightarrow>
     (case getitem doc ''cases'' of
        Inl _ \<Rightarrow> False
      | Inr cases \<Rightarrow>
          object_list has_int_or_str_id events \<and> object_list has_int_or_str_id cases \<and>
          (case getitem doc ''categories'' of
             Inl _ \<Rightarrow> True
           | Inr cats \<Rightarrow> object_list (\<lambda>c. is_dict c \<and> id_typed c) cats)))"

text \<open>
  Sample data for the examples below: a sequence of identifiers, a timeline with integer
  and string ids and a category without an id, and the same timeline migrated.
\<close>

definition uuid_seq :: "nat \<Rightarrow> string" where
  "uuid_seq n = replicate (Suc n) CHR ''u''"

definition sample_timeline :: json where
  "sample_timeline =
     JDict [(''title'', JStr ''Rad''),
            (''events'', JList [JDict [(''id'', JInt 1), (''name'', JStr ''wow'')],
                                JDict [(''id'', JStr ''ab'')]]),
            (''cases'', JList [JDict [(''id'', JInt 7), (''categories'', JList [])]]),
            (''categories'', JList [JDict [(''name'', JStr ''law'')]])]"

definition sample_migrated :: json where
  "sample_migrated =
     JDict [(''title'', JStr ''Rad''),
            (''events'', JList [JDict [(''id'', JStr ''u''), (''name'', JStr ''wow''),
                                       (''categories'', JList [])],
                                JDict [(''id'', JStr ''ab''), (''categories'', JList [])]]),
            (''cases'', JList [JDict [(''id'', JStr ''uu''), (''categories'', JList [])]]),
            (''categories'', JList [JDict [(''name'', JStr ''law''), (''id'', JStr ''uuu'')]])]"

section \<open>The registration form: \<open>RegisterUserForm.clean_email\<close>\<close>

text \<open>
  A Python \<open>str\<close> is a sequence of Unicode code points, and on a \<open>str\<close> the pattern
  \<^verbatim>\<open>\s\<close> of \<open>re\<close> matches the code points Python counts as whitespace: U+0009 to
  U+000D, U+001C to U+0020, U+0085, U+00A0, U+1680, U+2000 to U+200A, U+2028, U+2029,
  U+202F, U+205F and U+3000. The messages of the errors are ASCII and written as
  strings.

  \<open>clean_email\<close> reads the cleaned e-mail address of the form, a \<open>str\<close>. What it takes
  from outside the module is a parameter of the model: the \<open>normalized_email\<close> column
  of the \<open>CapUser\<close> table, \<open>CapUser.normalize_email\<close>, \<open>EmailBlocklist.email_allowed\<close>,
  the setting \<open>VALIDATE_EMAIL_SIGNUPS\<close>, and what the request to Mailgun comes back
  with: a \<open>RequestException\<close> (also from \<open>raise_for_status\<close>), a body that is not JSON,
  or the decoded body. Only \<open>RequestException\<close> is caught; an exception of another
  kind leaves \<open>clean_email\<close> as it is, which the model records as \<open>Uncaught\<close>.
\<close>

type_synonym unicode = "nat list"

definition py_isspace :: "nat \<Rightarrow> bool" where
  "py_isspace c \<longleftrightarrow>
     (9 \<le> c \<and> c \<le> 13) \<or> (28 \<le> c \<and> c \<le> 32) \<or> c = 133 \<or> c = 160 \<or> c = 5760 \<or>
     (8192 \<le> c \<and> c \<le> 8202) \<or> c = 8232 \<or> c = 8233 \<or> c = 8239 \<or> c = 8287 \<or> c = 12288"

datatype mailgun_reply = RequestException | InvalidBody | Body json

datatype form_error = ValidationError string | Uncaught py_error

record signup =
  registered :: "unicode list"
  normalize_email :: "unicode \<Rightarrow> unicode"
  email_allowed :: "unicode \<Rightarrow> bool"
  VALIDATE_EMAIL_SIGNUPS :: bool
  mailgun :: "unicode \<Rightarrow> mailgun_reply"

text \<open>
  The rejection raised both for a blocked address and for an address Mailgun reports
  as undeliverable or disposable, and the block under
  \<^verbatim>\<open>if settings.VALIDATE_EMAIL_SIGNUPS:\<close>, given what the request came back with.
\<close>

definition invalid_address :: "form_error + unicode" where
  "invalid_address =
     Inl (ValidationError
       ''This email address is invalid. If you believe this is an error, please contact us.'')"

definition check_mailgun :: "mailgun_reply \<Rightarrow> unicode \<Rightarrow> form_error + unicode" where
  "check_mailgun reply email =
     (case reply of
        RequestException \<Rightarrow>
          Inl (ValidationError
            ''Cannot connect to email validation server. If this problem persists, please contact us.'')
      | InvalidBody \<Rightarrow> Inl (Uncaught ValueError)
      | Body response_json \<Rightarrow>
          (case getitem response_json ''result'' of
             Inl e \<Rightarrow> Inl (Uncaught e)
           | Inr result \<Rightarrow>
               (if result = JStr ''undeliverable'' then invalid_address
                else if result = JStr ''do_not_send'' then
                  (case getitem response_json ''reason'' of
                     Inl e \<Rightarrow> Inl (Uncaught e)
                   | Inr reason \<Rightarrow>
                       (case contains ''mailbox_is_disposable_address'' reason of
                          Inl e \<Rightarrow> Inl (Uncaught e)
                        | Inr disposable \<Rightarrow> (if disposable then invalid_address else Inr email)))
                else Inr email)))"

definition clean_email :: "signup \<Rightarrow> unicode \<Rightarrow> form_error + unicode" where
  "clean_email env email =
     (if list_ex py_isspace email then
        Inl (ValidationError ''Email address may not contain spaces.'')
      else if normalize_email env email \<in> set (registered env) then
        Inl (ValidationError ''A user with the same email address has already registered.'')
      else if \<not> email_allowed env email then invalid_address
      else if VALIDATE_EMAIL_SIGNUPS env then check_mailgun (mailgun env email) email
      else Inr email)"

text \<open>The outcome is a \<open>forms.ValidationError\<close>.\<close>

fun is_validation_error :: "form_error + unicode \<Rightarrow> bool" where
  "is_validation_error (Inl (ValidationError _)) = True"
| "is_validation_error _ = False"

text \<open>Sample data for the examples below.\<close>

definition ascii :: "string \<Rightarrow> unicode" where
  "ascii s = map of_char s"

definition sample_signup :: signup where
  "sample_signup =
     \<lparr>registered = [ascii ''ann@example.org''],
      normalize_email = id,
      email_allowed = (\<lambda>e. e \<noteq> ascii ''spam@example.org''),
      VALIDATE_EMAIL_SIGNUPS = False,
      mailgun = (\<lambda>_. RequestException)\<rparr>"

section \<open>Properties of the migration\<close>

subsection \<open>Dicts and single objects\<close>

lemma map_of_dict_set: "map_of (dict_set k v d) = (map_of d)(k \<mapsto> v)"
  by (induction d) (auto simp: fun_eq_iff)

lemma keys_dict_set: "fst ` set (dict_set k v d) = insert k (fst ` set d)"
  by (induction d) auto

lemma dict_set_same: "map_of d k = Some v \<Longrightarrow> dict_set k v d = d"
  by (induction d) (auto split: if_splits)

lemma key_iff_map_of: "k \<in> fst ` set d \<longleftrightarrow> map_of d k \<noteq> None"
  by (simp add: map_of_eq_None_iff)

lemma is_str_iff: "is_str v \<longleftrightarrow> (\<exists>s. v = JStr s)"
  by (cases v) auto

lemma getitem_Inr_iff: "getitem obj k = Inr v \<longleftrightarrow> (\<exists>d. obj = JDict d \<and> map_of d k = Some v)"
  by (cases obj) (auto simp: getitem_def split: option.splits)

lemma getitem_dict: "getitem (JDict d) k = (case map_of d k of None \<Rightarrow> Inl (KeyError k) | Some v \<Rightarrow> Inr v)"
  by (simp add: getitem_def)

lemma setitem_dict: "setitem (JDict d) k v = Inr (JDict (dict_set k v d))"
  by (simp add: setitem_def)

lemma contains_dict: "contains k (JDict d) = Inr (k \<in> set (map fst d))"
  by (simp add: contains_def)

lemma has_str_id_iff: "has_str_id obj \<longleftrightarrow> (\<exists>d s. obj = JDict d \<and> map_of d ''id'' = Some (JStr s))"
  by (cases obj) (auto simp: has_str_id_def getitem_def is_str_iff split: option.splits)

lemma change_id_str: "has_str_id obj \<Longrightarrow> change_id u m obj = Inr (obj, m)"
  by (auto simp: has_str_id_iff change_id_def getitem_dict)

lemma change_id_Inr:
  assumes "change_id u n obj = Inr (obj', n')" and "id_typed obj"
  shows "has_str_id obj'"
proof -
  from assms(1) obtain d v where d: "obj = JDict d" "map_of d ''id'' = Some v"
    by (cases obj) (auto simp: change_id_def getitem_def split: option.splits)
  show ?thesis
  proof (cases "is_int v")
    case True
    with assms(1) d have "obj' = JDict (dict_set ''id'' (JStr (u n)) d)"
      by (auto simp: change_id_def getitem_dict setitem_dict)
    then show ?thesis by (simp add: has_str_id_iff map_of_dict_set)
  next
    case False
    with assms d have "obj' = obj" "is_str v"
      by (auto simp: change_id_def getitem_dict id_typed_def)
    with d show ?thesis by (auto simp: has_str_id_iff is_str_iff)
  qed
qed

lemma change_cat_id_str: "has_str_id obj \<Longrightarrow> change_cat_id u m obj = Inr (obj, m)"
  by (auto simp: has_str_id_iff change_cat_id_def getitem_dict contains_dict key_iff_map_of)

lemma change_cat_id_Inr:
  assumes "change_cat_id u n obj = Inr (obj', n')" and "id_typed obj"
  shows "has_str_id obj'"
proof -
  from assms(1) obtain d where d: "obj = JDict d"
    by (cases obj)
      (auto simp: change_cat_id_def contains_def getitem_def setitem_def split: if_splits)
  show ?thesis
  proof (cases "map_of d ''id''")
    case None
    with assms(1) d have "obj' = JDict (dict_set ''id'' (JStr (u n)) d)"
      by (auto simp: change_cat_id_def contains_dict key_iff_map_of setitem_dict)
    then show ?thesis by (simp add: has_str_id_iff map_of_dict_set)
  next
    case (Some v)
    show ?thesis
    proof (cases "is_int v")
      case True
      with assms(1) d Some have "obj' = JDict (dict_set ''id'' (JStr (u n)) d)"
        by (auto simp: change_cat_id_def contains_dict key_iff_map_of getitem_dict setitem_dict)
      then show ?thesis by (simp add: has_str_id_iff map_of_dict_set)
    next
      case False
      with assms d Some have "obj' = obj" "is_str v"
        by (auto simp: change_cat_id_def contains_dict key_iff_map_of getitem_dict id_typed_def)
      with d Some show ?thesis by (auto simp: has_str_id_iff is_str_iff)
    qed
  qed
qed

lemma add_categories_obj_keeps:
  "has_key ''categories'' obj \<Longrightarrow> add_categories_obj obj = Inr obj"
  by (cases obj) (auto simp: has_key_def add_categories_obj_def contains_def)

lemma add_categories_obj_Inr:
  assumes "has_str_id obj"
  shows "\<exists>obj'. add_categories_obj obj = Inr obj' \<and> has_str_id obj' \<and> has_key ''categories'' obj'"
proof -
  from assms obtain d s where d: "obj = JDict d" "map_of d ''id'' = Some (JStr s)"
    by (auto simp: has_str_id_iff)
  show ?thesis
  proof (cases "''categories'' \<in> set (map fst d)")
    case True
    with d show ?thesis
      by (auto simp: add_categories_obj_def contains_dict has_key_def has_str_id_iff)
  next
    case False
    with d show ?thesis
      by (auto simp: add_categories_obj_def contains_dict setitem_dict has_key_def
          has_str_id_iff map_of_dict_set keys_dict_set)
  qed
qed


subsection \<open>Loops and containers\<close>

lemma for_each_st_all:
  assumes "for_each_st f n xs = Inr (xs', n')" and "list_all Q xs"
    and "\<And>n x x' n'. f n x = Inr (x', n') \<Longrightarrow> Q x \<Longrightarrow> P x'"
  shows "list_all P xs'"
  using assms(1,2)
proof (induction xs arbitrary: n xs' n')
  case Nil
  then show ?case by simp
next
  case (Cons x xs)
  from Cons.prems(1) obtain x' n1 where x: "f n x = Inr (x', n1)"
    by (cases "f n x") auto
  with Cons.prems(1) obtain ys n2 where ys: "for_each_st f n1 xs = Inr (ys, n2)"
    by (cases "for_each_st f n1 xs") auto
  with x Cons.prems(1) have "xs' = x' # ys" by simp
  moreover from x Cons.prems(2) have "P x'" by (auto intro: assms(3))
  moreover from ys Cons.prems(2) have "list_all P ys" by (auto intro: Cons.IH)
  ultimately show ?case by simp
qed

lemma for_each_st_fix:
  "list_all (\<lambda>x. f m x = Inr (x, m)) xs \<Longrightarrow> for_each_st f m xs = Inr (xs, m)"
  by (induction xs) auto

lemma for_each_fix:
  "list_all (\<lambda>x. f x = Inr x) xs \<Longrightarrow> for_each f xs = Inr xs"
  by (induction xs) auto

lemma for_each_st_Inl:
  "xs \<noteq> [] \<Longrightarrow> isl (f n (hd xs)) \<Longrightarrow> isl (for_each_st f n xs)"
  by (cases xs) (auto split: sum.splits)

lemma change_id_str_raises: "isl (change_id u n (JStr s))"
  by (simp add: change_id_def getitem_def)

lemma change_cat_id_str_raises: "isl (change_cat_id u n (JStr s))"
  by (simp add: change_cat_id_def contains_def getitem_def setitem_def)

lemma for_objects_st_settled:
  assumes run: "for_objects_st f n c = Inr (c', n')" and typed: "list_all Q (elems c)"
    and body: "\<And>n x x' n'. f n x = Inr (x', n') \<Longrightarrow> Q x \<Longrightarrow> has_str_id x'"
    and strs: "\<And>s. isl (f n (JStr s))"
  shows "settled c'"
proof (cases c)
  case (JList xs)
  with run obtain xs' where "for_each_st f n xs = Inr (xs', n')" "c' = JList xs'"
    by (auto simp: for_objects_st_def py_iter_def split: sum.splits)
  with typed JList show ?thesis
    using for_each_st_all [of f n xs xs' n' Q has_str_id] body
    by (auto simp: settled_def elems_def)
next
  case (JDict d)
  have "d = []"
  proof (rule ccontr)
    assume "d \<noteq> []"
    then have "isl (for_each_st f n (map (\<lambda>p. JStr (fst p)) d))"
      using strs by (intro for_each_st_Inl) (auto simp: hd_map)
    with run JDict show False
      by (auto simp: for_objects_st_def py_iter_def isl_def split: sum.splits)
  qed
  with run JDict show ?thesis by (auto simp: for_objects_st_def py_iter_def settled_def)
next
  case (JStr s)
  have "s = []"
  proof (rule ccontr)
    assume "s \<noteq> []"
    then have "isl (for_each_st f n (map (\<lambda>c. JStr [c]) s))"
      using strs by (intro for_each_st_Inl) (auto simp: hd_map)
    with run JStr show False
      by (auto simp: for_objects_st_def py_iter_def isl_def split: sum.splits)
  qed
  with run JStr show ?thesis by (auto simp: for_objects_st_def py_iter_def settled_def)
qed (use run in \<open>auto simp: for_objects_st_def py_iter_def\<close>)

lemma for_objects_st_fix:
  assumes "settled c" and "\<And>x. has_str_id x \<Longrightarrow> f m x = Inr (x, m)"
  shows "for_objects_st f m c = Inr (c, m)"
proof (cases c)
  case (JList xs)
  with assms(1) have "list_all (\<lambda>x. f m x = Inr (x, m)) xs"
    by (auto simp: settled_def list_all_iff assms(2))
  then show ?thesis using JList by (simp add: for_objects_st_def py_iter_def for_each_st_fix)
qed (use assms(1) in \<open>auto simp: settled_def for_objects_st_def py_iter_def\<close>)

lemma for_each_add_categories:
  "list_all has_str_id xs \<Longrightarrow>
   \<exists>xs'. for_each add_categories_obj xs = Inr xs' \<and> list_all has_str_id xs' \<and>
     list_all (has_key ''categories'') xs'"
proof (induction xs)
  case Nil
  then show ?case by simp
next
  case (Cons x xs)
  then obtain x' where "add_categories_obj x = Inr x'" "has_str_id x'" "has_key ''categories'' x'"
    using add_categories_obj_Inr [of x] by auto
  moreover from Cons obtain xs' where "for_each add_categories_obj xs = Inr xs'"
    "list_all has_str_id xs'" "list_all (has_key ''categories'') xs'"
    by auto
  ultimately show ?case by simp
qed

lemma for_objects_add_categories:
  assumes "settled c"
  shows "\<exists>c'. for_objects add_categories_obj c = Inr c' \<and> settled c' \<and>
    list_all (has_key ''categories'') (elems c')"
proof (cases c)
  case (JList xs)
  with assms have "list_all has_str_id xs" by (simp add: settled_def)
  from for_each_add_categories [OF this] JList show ?thesis
    by (auto simp: for_objects_def py_iter_def settled_def elems_def)
qed (use assms in \<open>auto simp: settled_def for_objects_def py_iter_def elems_def\<close>)

lemma for_objects_add_categories_fix:
  assumes "settled c" and "list_all (has_key ''categories'') (elems c)"
  shows "for_objects add_categories_obj c = Inr c"
proof (cases c)
  case (JList xs)
  with assms(2) have "list_all (\<lambda>x. add_categories_obj x = Inr x) xs"
    by (auto simp: elems_def list_all_iff add_categories_obj_keeps)
  then show ?thesis using JList by (simp add: for_objects_def py_iter_def for_each_fix)
qed (use assms(1) in \<open>auto simp: settled_def for_objects_def py_iter_def\<close>)


subsection \<open>One timeline\<close>

lemma loop_over_st_Inr:
  assumes "loop_over_st f n doc k = Inr (doc', n')"
  obtains d c c' where "doc = JDict d" "map_of d k = Some c"
    "for_objects_st f n c = Inr (c', n')" "doc' = JDict (dict_set k c' d)"
proof -
  from assms obtain c where c: "getitem doc k = Inr c"
    by (cases "getitem doc k") (auto simp: loop_over_st_def)
  then obtain d where d: "doc = JDict d" "map_of d k = Some c"
    by (auto simp: getitem_Inr_iff)
  from assms c obtain c' where c': "for_objects_st f n c = Inr (c', n')"
    "setitem doc k c' = Inr doc'"
    by (cases "for_objects_st f n c") (auto simp: loop_over_st_def split: sum.splits)
  with d have "doc' = JDict (dict_set k c' d)" by (simp add: setitem_dict)
  with d c' that show ?thesis by blast
qed

lemma loop_over_st_fix:
  "map_of d k = Some c \<Longrightarrow> for_objects_st f m c = Inr (c, m) \<Longrightarrow>
   loop_over_st f m (JDict d) k = Inr (JDict d, m)"
  by (simp add: loop_over_st_def getitem_dict setitem_dict dict_set_same)

lemma loop_over_dict:
  "map_of d k = Some c \<Longrightarrow> for_objects f c = Inr c' \<Longrightarrow>
   loop_over f (JDict d) k = Inr (JDict (dict_set k c' d))"
  by (simp add: loop_over_def getitem_dict setitem_dict)

lemma change_ids_timeline_settled:
  assumes run: "change_ids_timeline u n doc = Inr (doc', n')" and typed: "ids_typed doc"
  obtains d ev cs where "doc' = JDict d"
    "map_of d ''events'' = Some ev" "settled ev"
    "map_of d ''cases'' = Some cs" "settled cs"
    "\<forall>ct. map_of d ''categories'' = Some ct \<longrightarrow> settled ct"
proof -
  from run obtain doc1 n1 where s1: "loop_over_st (change_id u) n doc ''events'' = Inr (doc1, n1)"
    by (cases "loop_over_st (change_id u) n doc ''events''") (auto simp: change_ids_timeline_def)
  with run obtain doc2 n2 where s2: "loop_over_st (change_id u) n1 doc1 ''cases'' = Inr (doc2, n2)"
    by (cases "loop_over_st (change_id u) n1 doc1 ''cases''") (auto simp: change_ids_timeline_def)
  from s1 obtain d0 ev0 ev where e: "doc = JDict d0" "map_of d0 ''events'' = Some ev0"
    "for_objects_st (change_id u) n ev0 = Inr (ev, n1)" "doc1 = JDict (dict_set ''events'' ev d0)"
    by (rule loop_over_st_Inr)
  from s2 e(4) obtain cs0 cs where c: "map_of (dict_set ''events'' ev d0) ''cases'' = Some cs0"
    "for_objects_st (change_id u) n1 cs0 = Inr (cs, n2)"
    "doc2 = JDict (dict_set ''cases'' cs (dict_set ''events'' ev d0))"
    by (auto elim!: loop_over_st_Inr)
  from c(1) have cs0: "map_of d0 ''cases'' = Some cs0" by (simp add: map_of_dict_set)
  from typed e(1,2) cs0 have t: "list_all id_typed (elems ev0)" "list_all id_typed (elems cs0)"
    by (auto simp: ids_typed_def objects_of_def getitem_dict)
  have sev: "settled ev"
    using e(3) t(1) change_id_Inr change_id_str_raises by (rule for_objects_st_settled)
  have scs: "settled cs"
    using c(2) t(2) change_id_Inr change_id_str_raises by (rule for_objects_st_settled)
  let ?d2 = "dict_set ''cases'' cs (dict_set ''events'' ev d0)"
  have m2: "map_of ?d2 ''events'' = Some ev" "map_of ?d2 ''cases'' = Some cs"
    "map_of ?d2 ''categories'' = map_of d0 ''categories''"
    by (simp_all add: map_of_dict_set)
  show ?thesis
  proof (cases "map_of d0 ''categories''")
    case None
    with run s1 s2 c(3) m2 have "doc' = JDict ?d2"
      by (simp add: change_ids_timeline_def contains_dict key_iff_map_of)
    with m2 None sev scs show ?thesis
      by (intro that [of ?d2 ev cs]) simp_all
  next
    case (Some ct0)
    with run s1 s2 c(3) m2
    have s3: "loop_over_st (change_cat_id u) n2 (JDict ?d2) ''categories'' = Inr (doc', n')"
      by (simp add: change_ids_timeline_def contains_dict key_iff_map_of)
    then obtain ct where ct: "for_objects_st (change_cat_id u) n2 ct0 = Inr (ct, n')"
      "doc' = JDict (dict_set ''categories'' ct ?d2)"
      using Some m2(3) by (auto elim!: loop_over_st_Inr)
    from typed e(1) Some have "list_all id_typed (elems ct0)"
      by (auto simp: ids_typed_def objects_of_def getitem_dict)
    with ct(1) have "settled ct"
      using change_cat_id_Inr change_cat_id_str_raises by (rule for_objects_st_settled)
    with ct(2) m2 sev scs show ?thesis
      by (intro that [of "dict_set ''categories'' ct ?d2" ev cs]) (simp_all add: map_of_dict_set)
  qed
qed


lemma add_categories_timeline_settled:
  assumes ev: "map_of d ''events'' = Some ev" "settled ev"
    and cs: "map_of d ''cases'' = Some cs" "settled cs"
    and ct: "\<forall>ct. map_of d ''categories'' = Some ct \<longrightarrow> settled ct"
  obtains d' ev' cs' ct' where "add_categories_timeline (JDict d) = Inr (JDict d')"
    "map_of d' ''events'' = Some ev'" "settled ev'" "list_all (has_key ''categories'') (elems ev')"
    "map_of d' ''cases'' = Some cs'" "settled cs'" "list_all (has_key ''categories'') (elems cs')"
    "map_of d' ''categories'' = Some ct'" "settled ct'"
proof -
  from ev(2) obtain ev' where ev': "for_objects add_categories_obj ev = Inr ev'" "settled ev'"
    "list_all (has_key ''categories'') (elems ev')"
    using for_objects_add_categories by blast
  from cs(2) obtain cs' where cs': "for_objects add_categories_obj cs = Inr cs'" "settled cs'"
    "list_all (has_key ''categories'') (elems cs')"
    using for_objects_add_categories by blast
  let ?d1 = "dict_set ''events'' ev' d"
  let ?d2 = "dict_set ''cases'' cs' ?d1"
  have s1: "loop_over add_categories_obj (JDict d) ''events'' = Inr (JDict ?d1)"
    using ev(1) ev'(1) by (rule loop_over_dict)
  have "map_of ?d1 ''cases'' = Some cs" using cs(1) by (simp add: map_of_dict_set)
  then have s2: "loop_over add_categories_obj (JDict ?d1) ''cases'' = Inr (JDict ?d2)"
    using cs'(1) by (rule loop_over_dict)
  have run: "add_categories_timeline (JDict d) = add_categories_obj (JDict ?d2)"
    by (simp add: add_categories_timeline_def s1 s2)
  have m2: "map_of ?d2 ''events'' = Some ev'" "map_of ?d2 ''cases'' = Some cs'"
    "map_of ?d2 ''categories'' = map_of d ''categories''"
    by (simp_all add: map_of_dict_set)
  show ?thesis
  proof (cases "map_of d ''categories''")
    case None
    let ?d3 = "dict_set ''categories'' (JList []) ?d2"
    from None m2(3) have "add_categories_timeline (JDict d) = Inr (JDict ?d3)"
      by (simp add: run add_categories_obj_def contains_dict key_iff_map_of setitem_dict)
    with ev' cs' show ?thesis
      by (intro that [of ?d3 ev' cs' "JList []"]) (simp_all add: map_of_dict_set settled_def)
  next
    case (Some ct0)
    with m2(3) have "add_categories_timeline (JDict d) = Inr (JDict ?d2)"
      by (simp add: run add_categories_obj_def contains_dict key_iff_map_of)
    with ev' cs' m2 Some ct show ?thesis
      by (intro that [of ?d2 ev' cs' ct0]) simp_all
  qed
qed

lemma settled_timeline_fixed:
  assumes "map_of d ''events'' = Some ev" "settled ev" "list_all (has_key ''categories'') (elems ev)"
    and "map_of d ''cases'' = Some cs" "settled cs" "list_all (has_key ''categories'') (elems cs)"
    and "map_of d ''categories'' = Some ct" "settled ct"
  shows "normalized (JDict d)"
    and "change_ids_timeline u m (JDict d) = Inr (JDict d, m)"
    and "add_categories_timeline (JDict d) = Inr (JDict d)"
proof -
  have str: "settled c \<Longrightarrow> list_all has_str_id (elems c)" for c
    by (cases c) (auto simp: settled_def elems_def)
  from assms str [of ev] str [of cs] str [of ct] show "normalized (JDict d)"
    by (auto simp: normalized_def objects_of_def getitem_dict has_key_def key_iff_map_of
        list_all_iff)
  have "loop_over_st (change_id u) m (JDict d) ''events'' = Inr (JDict d, m)"
    using assms(1,2) by (intro loop_over_st_fix for_objects_st_fix change_id_str)
  moreover have "loop_over_st (change_id u) m (JDict d) ''cases'' = Inr (JDict d, m)"
    using assms(4,5) by (intro loop_over_st_fix for_objects_st_fix change_id_str)
  moreover have "loop_over_st (change_cat_id u) m (JDict d) ''categories'' = Inr (JDict d, m)"
    using assms(7,8) by (intro loop_over_st_fix for_objects_st_fix change_cat_id_str)
  ultimately show "change_ids_timeline u m (JDict d) = Inr (JDict d, m)"
    using assms(7) by (simp add: change_ids_timeline_def contains_dict key_iff_map_of)
  have "loop_over add_categories_obj (JDict d) ''events'' = Inr (JDict d)"
    using assms(1-3)
    by (simp add: loop_over_def getitem_dict setitem_dict dict_set_same
        for_objects_add_categories_fix)
  moreover have "loop_over add_categories_obj (JDict d) ''cases'' = Inr (JDict d)"
    using assms(4-6)
    by (simp add: loop_over_def getitem_dict setitem_dict dict_set_same
        for_objects_add_categories_fix)
  ultimately show "add_categories_timeline (JDict d) = Inr (JDict d)"
    using assms(7)
    by (simp add: add_categories_timeline_def add_categories_obj_def contains_dict key_iff_map_of)
qed

lemma migrate_timeline:
  assumes "change_ids_timeline u n doc = Inr (doc1, n1)" and "ids_typed doc"
    and "add_categories_timeline doc1 = Inr doc2"
  shows "normalized doc2 \<and> (\<forall>u' m. change_ids_timeline u' m doc2 = Inr (doc2, m)) \<and>
    add_categories_timeline doc2 = Inr doc2"
proof -
  from assms(1,2) obtain d ev cs where d: "doc1 = JDict d"
    "map_of d ''events'' = Some ev" "settled ev"
    "map_of d ''cases'' = Some cs" "settled cs"
    "\<forall>ct. map_of d ''categories'' = Some ct \<longrightarrow> settled ct"
    by (rule change_ids_timeline_settled)
  from d(2-6) obtain d' ev' cs' ct' where d': "add_categories_timeline (JDict d) = Inr (JDict d')"
    "map_of d' ''events'' = Some ev'" "settled ev'" "list_all (has_key ''categories'') (elems ev')"
    "map_of d' ''cases'' = Some cs'" "settled cs'" "list_all (has_key ''categories'') (elems cs')"
    "map_of d' ''categories'' = Some ct'" "settled ct'"
    by (rule add_categories_timeline_settled)
  from d(1) d'(1) assms(3) have "doc2 = JDict d'" by simp
  with settled_timeline_fixed [OF d'(2-9)] show ?thesis by simp
qed

subsection \<open>The table of timelines\<close>

lemma for_each_both:
  assumes "for_each_st f n xs = Inr (ys, n')" and "for_each g ys = Inr zs" and "list_all Q xs"
    and "\<And>n x y n' z. f n x = Inr (y, n') \<Longrightarrow> g y = Inr z \<Longrightarrow> Q x \<Longrightarrow> P z"
  shows "list_all P zs"
  using assms(1-3)
proof (induction xs arbitrary: n ys zs n')
  case Nil
  then show ?case by auto
next
  case (Cons x xs)
  from Cons.prems(1) obtain y n1 where y: "f n x = Inr (y, n1)"
    by (cases "f n x") auto
  with Cons.prems(1) obtain ys' where ys': "for_each_st f n1 xs = Inr (ys', n')" "ys = y # ys'"
    by (cases "for_each_st f n1 xs") auto
  with Cons.prems(2) obtain z where z: "g y = Inr z"
    by (cases "g y") auto
  with ys' Cons.prems(2) obtain zs' where zs': "for_each g ys' = Inr zs'" "zs = z # zs'"
    by (cases "for_each g ys'") auto
  from y z Cons.prems(3) have "P z" by (auto intro: assms(4))
  moreover from ys'(1) zs'(1) Cons.prems(3) have "list_all P zs'" by (auto intro: Cons.IH)
  ultimately show ?case using zs'(2) by simp
qed

subsection \<open>The migration completes on well-formed timelines\<close>

lemma for_each_st_completes:
  "list_all (\<lambda>x. \<forall>n. \<not> isl (f n x)) xs \<Longrightarrow> \<not> isl (for_each_st f n xs)"
proof (induction xs arbitrary: n)
  case Nil
  then show ?case by simp
next
  case (Cons x xs)
  then obtain x' n1 where x: "f n x = Inr (x', n1)"
    by (cases "f n x") (auto simp: isl_def)
  from Cons have "\<not> isl (for_each_st f n1 xs)" by simp
  then obtain xs' n2 where "for_each_st f n1 xs = Inr (xs', n2)"
    by (cases "for_each_st f n1 xs") auto
  with x show ?case by simp
qed

lemma change_id_completes: "has_int_or_str_id obj \<Longrightarrow> \<not> isl (change_id u n obj)"
  by (cases obj) (auto simp: has_int_or_str_id_def change_id_def getitem_def setitem_def split: option.splits)

lemma change_cat_id_completes:
  assumes "is_dict obj"
  shows "\<not> isl (change_cat_id u n obj)"
proof -
  from assms obtain d where "obj = JDict d"
    by (cases obj) (auto simp: is_dict_def)
  then show ?thesis
    by (cases "map_of d ''id''")
      (auto simp: change_cat_id_def contains_dict key_iff_map_of getitem_dict setitem_dict)
qed

lemma for_objects_st_completes:
  assumes "object_list P c" and "\<And>x n. P x \<Longrightarrow> \<not> isl (f n x)"
  shows "\<not> isl (for_objects_st f n c)"
proof -
  from assms(1) obtain xs where xs: "c = JList xs" "list_all P xs"
    by (cases c) (auto simp: object_list_def)
  then have "list_all (\<lambda>x. \<forall>n. \<not> isl (f n x)) xs"
    by (auto simp: list_all_iff assms(2))
  then have "\<not> isl (for_each_st f n xs)" by (rule for_each_st_completes)
  with xs show ?thesis
    by (auto simp: for_objects_st_def py_iter_def split: sum.splits)
qed

lemma loop_over_st_completes:
  assumes "map_of d k = Some c" and "\<not> isl (for_objects_st f n c)"
  shows "\<exists>c' n'. for_objects_st f n c = Inr (c', n') \<and>
    loop_over_st f n (JDict d) k = Inr (JDict (dict_set k c' d), n')"
  using assms
  by (cases "for_objects_st f n c") (auto simp: loop_over_st_def getitem_dict setitem_dict)

lemma well_formed_ids_typed: "well_formed doc \<Longrightarrow> ids_typed doc"
  by (auto simp: well_formed_def ids_typed_def objects_of_def elems_def object_list_def
      has_int_or_str_id_def id_typed_def list_all_iff
      split: sum.splits json.splits)

lemma change_ids_timeline_completes:
  assumes "well_formed doc"
  shows "\<not> isl (change_ids_timeline u n doc)"
proof -
  from assms obtain d ev cs where d: "doc = JDict d" "map_of d ''events'' = Some ev"
    "map_of d ''cases'' = Some cs" "object_list has_int_or_str_id ev"
    "object_list has_int_or_str_id cs"
    by (auto simp: well_formed_def getitem_Inr_iff split: sum.splits)
  from d(4) have "\<not> isl (for_objects_st (change_id u) n ev)"
    by (rule for_objects_st_completes) (rule change_id_completes)
  with d(2) obtain ev' n1 where
    1: "loop_over_st (change_id u) n (JDict d) ''events'' = Inr (JDict (dict_set ''events'' ev' d), n1)"
    using loop_over_st_completes by blast
  let ?d1 = "dict_set ''events'' ev' d"
  have c1: "map_of ?d1 ''cases'' = Some cs" using d(3) by (simp add: map_of_dict_set)
  from d(5) have "\<not> isl (for_objects_st (change_id u) n1 cs)"
    by (rule for_objects_st_completes) (rule change_id_completes)
  with c1 obtain cs' n2 where
    2: "loop_over_st (change_id u) n1 (JDict ?d1) ''cases'' = Inr (JDict (dict_set ''cases'' cs' ?d1), n2)"
    using loop_over_st_completes by blast
  let ?d2 = "dict_set ''cases'' cs' ?d1"
  have m2: "map_of ?d2 ''categories'' = map_of d ''categories''"
    by (simp add: map_of_dict_set)
  show ?thesis
  proof (cases "map_of d ''categories''")
    case None
    with 1 2 m2 d(1) show ?thesis
      by (simp add: change_ids_timeline_def contains_dict key_iff_map_of)
  next
    case (Some ct)
    with assms d(1-3) have "object_list (\<lambda>c. is_dict c \<and> id_typed c) ct"
      by (simp add: well_formed_def getitem_dict)
    then have run: "\<not> isl (for_objects_st (change_cat_id u) n2 ct)"
      by (rule for_objects_st_completes) (simp add: change_cat_id_completes)
    from Some m2 have "map_of ?d2 ''categories'' = Some ct" by simp
    from loop_over_st_completes [OF this run] obtain ct' n3 where
      "loop_over_st (change_cat_id u) n2 (JDict ?d2) ''categories''
        = Inr (JDict (dict_set ''categories'' ct' ?d2), n3)"
      by blast
    with 1 2 m2 d(1) Some show ?thesis
      by (simp add: change_ids_timeline_def contains_dict key_iff_map_of)
  qed
qed

lemma add_categories_after_change_ids:
  assumes "change_ids_timeline u n doc = Inr (doc1, n1)" and "ids_typed doc"
  shows "\<not> isl (add_categories_timeline doc1)"
proof -
  from assms obtain d ev cs where d: "doc1 = JDict d"
    "map_of d ''events'' = Some ev" "settled ev"
    "map_of d ''cases'' = Some cs" "settled cs"
    "\<forall>ct. map_of d ''categories'' = Some ct \<longrightarrow> settled ct"
    by (rule change_ids_timeline_settled)
  from d(2-6) obtain d' where "add_categories_timeline (JDict d) = Inr (JDict d')"
    by (rule add_categories_timeline_settled)
  with d(1) show ?thesis by simp
qed

lemma for_each_after:
  assumes "for_each_st f n xs = Inr (ys, n')" and "list_all Q xs"
    and "\<And>n x y n'. f n x = Inr (y, n') \<Longrightarrow> Q x \<Longrightarrow> \<not> isl (g y)"
  shows "\<not> isl (for_each g ys)"
proof -
  have "list_all (\<lambda>y. \<not> isl (g y)) ys"
    using assms by (rule for_each_st_all)
  then show ?thesis by (induction ys) (auto split: sum.splits)
qed

lemma migration_0007_completes:
  assumes "list_all well_formed timelines"
  shows "\<exists>timelines' n'. migration_0007 uuid n timelines = Inr (timelines', n')"
proof -
  from assms have "list_all (\<lambda>t. \<forall>n. \<not> isl (change_ids_timeline uuid n t)) timelines"
    by (simp add: list_all_iff change_ids_timeline_completes)
  then have "\<not> isl (for_each_st (change_ids_timeline uuid) n timelines)"
    by (rule for_each_st_completes)
  then obtain ts1 n1 where 1: "for_each_st (change_ids_timeline uuid) n timelines = Inr (ts1, n1)"
    by (cases "for_each_st (change_ids_timeline uuid) n timelines") auto
  from assms have "list_all ids_typed timelines"
    by (simp add: list_all_iff well_formed_ids_typed)
  with 1 have "\<not> isl (for_each add_categories_timeline ts1)"
    by (rule for_each_after) (rule add_categories_after_change_ids)
  then obtain ts2 where "for_each add_categories_timeline ts1 = Inr ts2"
    by (cases "for_each add_categories_timeline ts1") auto
  with 1 show ?thesis
    by (simp add: migration_0007_def change_ids_def add_categories_def)
qed

text \<open>
  Claim C10, as amended. Let the forward migration (\<open>change_ids\<close>, then
  \<open>add_categories\<close>) complete on a table of timelines in which the \<open>'id'\<close> of every
  event, case and category, where the object has one, is an \<open>int\<close> or a \<open>str\<close>. Then in
  every timeline of the result each event, case and category has a string-valued
  \<open>'id'\<close>, each event, each case and the document itself have a \<open>'categories'\<close> key, and
  running \<open>change_ids\<close> (with any identifiers, from any count) or \<open>add_categories\<close> again
  returns the same table, with no identifier drawn.
\<close>

theorem migration_0007_normalizes:
  assumes "migration_0007 uuid n timelines = Inr (timelines', n')"
    and "list_all ids_typed timelines"
  shows "list_all normalized timelines'
    \<and> change_ids uuid' m timelines' = Inr (timelines', m)
    \<and> add_categories timelines' = Inr timelines'"
proof -
  from assms(1) obtain ts1 where
    1: "for_each_st (change_ids_timeline uuid) n timelines = Inr (ts1, n')"
    and 2: "for_each add_categories_timeline ts1 = Inr timelines'"
    by (auto simp: migration_0007_def change_ids_def add_categories_def split: sum.splits)
  let ?P = "\<lambda>t. normalized t \<and> (\<forall>u' m. change_ids_timeline u' m t = Inr (t, m)) \<and>
    add_categories_timeline t = Inr t"
  have all: "list_all ?P timelines'"
    using 1 2 assms(2) by (rule for_each_both) (rule migrate_timeline)
  then have "list_all normalized timelines'" by (simp add: list_all_iff)
  moreover have "change_ids uuid' m timelines' = Inr (timelines', m)"
    unfolding change_ids_def using all by (intro for_each_st_fix) (simp add: list_all_iff)
  moreover have "add_categories timelines' = Inr timelines'"
    unfolding add_categories_def using all by (intro for_each_fix) (simp add: list_all_iff)
  ultimately show ?thesis by simp
qed

text \<open>
  The theorem at a timeline with integer and string ids and a category without an id:
  three identifiers are drawn, and the result is normalized and a fixed point.
\<close>

theorem migration_0007_normalizes_witness:
  "migration_0007 uuid_seq 0 [sample_timeline] = Inr ([sample_migrated], 3)
   \<and> list_all ids_typed [sample_timeline]
   \<and> list_all normalized [sample_migrated]
   \<and> change_ids uuid_seq 3 [sample_migrated] = Inr ([sample_migrated], 3)
   \<and> add_categories [sample_migrated] = Inr [sample_migrated]"
proof -
  have run: "migration_0007 uuid_seq 0 [sample_timeline] = Inr ([sample_migrated], 3)"
    by code_simp
  have typed: "list_all ids_typed [sample_timeline]"
    by code_simp
  note fixed = migration_0007_normalizes [OF run typed, of uuid_seq 3]
  show ?thesis
    by (intro conjI run typed fixed [THEN conjunct1] fixed [THEN conjunct2, THEN conjunct1]
        fixed [THEN conjunct2, THEN conjunct2])
qed

text \<open>
  Claim C10 as it is stated fails: \<open>change_ids\<close> replaces an id only when its type is
  \<open>int\<close>. On a timeline whose one event has the id \<open>null\<close> the migration completes and
  the event keeps that id.
\<close>

theorem migration_0007_null_id_counterexample:
  "migration_0007 uuid_seq 0
     [JDict [(''events'', JList [JDict [(''id'', JNull)]]), (''cases'', JList [])]]
   = Inr ([JDict [(''events'', JList [JDict [(''id'', JNull), (''categories'', JList [])]]),
                  (''cases'', JList []),
                  (''categories'', JList [])]], 0)
   \<and> \<not> normalized
     (JDict [(''events'', JList [JDict [(''id'', JNull), (''categories'', JList [])]]),
             (''cases'', JList []),
             (''categories'', JList [])])"
  by code_simp

section \<open>Properties of the registration form\<close>

text \<open>
  Claim C8. \<open>clean_email\<close> raises a \<open>ValidationError\<close> for an address that contains a
  whitespace character, for an address whose normalized form is the \<open>normalized_email\<close>
  of an existing user, and for an address the blocklist does not allow; an address
  that passes the three checks is returned as it is when the validation against
  Mailgun is switched off.
\<close>

theorem clean_email_checks:
  "(list_ex py_isspace email \<longrightarrow> is_validation_error (clean_email env email)) \<and>
   (normalize_email env email \<in> set (registered env) \<longrightarrow>
      is_validation_error (clean_email env email)) \<and>
   (\<not> email_allowed env email \<longrightarrow> is_validation_error (clean_email env email)) \<and>
   (\<not> list_ex py_isspace email \<and> normalize_email env email \<notin> set (registered env) \<and>
    email_allowed env email \<and> \<not> VALIDATE_EMAIL_SIGNUPS env \<longrightarrow>
      clean_email env email = Inr email)"
  by (simp add: clean_email_def invalid_address_def)

text \<open>
  The theorem at an address with a space, at the address of a registered user, at a
  blocked address, and at an address that passes.
\<close>

theorem clean_email_checks_witness:
  "list_ex py_isspace (ascii ''bob smith@example.org'')
   \<and> is_validation_error (clean_email sample_signup (ascii ''bob smith@example.org''))
   \<and> normalize_email sample_signup (ascii ''ann@example.org'') \<in> set (registered sample_signup)
   \<and> is_validation_error (clean_email sample_signup (ascii ''ann@example.org''))
   \<and> \<not> email_allowed sample_signup (ascii ''spam@example.org'')
   \<and> is_validation_error (clean_email sample_signup (ascii ''spam@example.org''))
   \<and> \<not> list_ex py_isspace (ascii ''bob@example.org'')
   \<and> normalize_email sample_signup (ascii ''bob@example.org'') \<notin> set (registered sample_signup)
   \<and> email_allowed sample_signup (ascii ''bob@example.org'')
   \<and> \<not> VALIDATE_EMAIL_SIGNUPS sample_signup
   \<and> clean_email sample_signup (ascii ''bob@example.org'') = Inr (ascii ''bob@example.org'')"
proof -
  have space: "list_ex py_isspace (ascii ''bob smith@example.org'')"
    by (simp add: ascii_def py_isspace_def)
  have taken: "normalize_email sample_signup (ascii ''ann@example.org'') \<in> set (registered sample_signup)"
    by (simp add: sample_signup_def)
  have blocked: "\<not> email_allowed sample_signup (ascii ''spam@example.org'')"
    by (simp add: sample_signup_def)
  have passes: "\<not> list_ex py_isspace (ascii ''bob@example.org'')"
    "normalize_email sample_signup (ascii ''bob@example.org'') \<notin> set (registered sample_signup)"
    "email_allowed sample_signup (ascii ''bob@example.org'')"
    "\<not> VALIDATE_EMAIL_SIGNUPS sample_signup"
    by (simp_all add: ascii_def py_isspace_def sample_signup_def)
  from clean_email_checks [of "ascii ''bob smith@example.org''" sample_signup] space
  have 1: "is_validation_error (clean_email sample_signup (ascii ''bob smith@example.org''))"
    by blast
  from clean_email_checks [of "ascii ''ann@example.org''" sample_signup] taken
  have 2: "is_validation_error (clean_email sample_signup (ascii ''ann@example.org''))"
    by blast
  from clean_email_checks [of "ascii ''spam@example.org''" sample_signup] blocked
  have 3: "is_validation_error (clean_email sample_signup (ascii ''spam@example.org''))"
    by blast
  from clean_email_checks [of "ascii ''bob@example.org''" sample_signup] passes
  have 4: "clean_email sample_signup (ascii ''bob@example.org'') = Inr (ascii ''bob@example.org'')"
    by blast
  from space taken blocked passes 1 2 3 4 show ?thesis
    by blast
qed

end
